theory Spec2Isabelle
  imports
    Main
    "HOL-Library.Char_ord"
    "HOL-Library.List_Lexorder"
    "HOL-Library.Sublist"
    "HOL-Library.Multiset"
begin

section \<open>The merged source dumper (merged\_source\_dumper.py)\<close>

text \<open>
  The program walks a directory tree, keeps the files whose name ends with one of seven
  extensions, sorts their paths and writes them, each under a marker line, into one
  output document. This theory embeds \<open>collect_source_files\<close> and the three
  module-level statements that follow it, together with the parts of the Python runtime
  that they call: \<open>str.endswith\<close>, \<open>os.path.join\<close>, \<open>os.walk\<close>, \<open>list.sort\<close>,
  text-mode \<open>open\<close>/\<open>read\<close>/\<open>write\<close> and \<open>print\<close>.

  Conventions. The platform is POSIX: the path separator is \<open>/\<close> and the line separator
  written for \<open>\n\<close> is \<open>\n\<close> itself. A Python \<open>str\<close> is a \<open>string\<close>, read as the UTF-8
  bytes of the text: concatenation, suffix tests against ASCII extensions, the search for
  \<open>/\<close>, \<open>\r\<close> and \<open>\n\<close>, and the lexicographic order are the same on code points and
  on their UTF-8 bytes. The order on strings is the lexicographic order of
  \<open>HOL-Library.List_Lexorder\<close> over the byte order of \<open>HOL-Library.Char_ord\<close>, which
  is how Python compares two \<open>str\<close>. Every \<open>str\<close> the program handles is text that
  UTF-8 can encode, and a write to the open output stream succeeds.
\<close>

subsection \<open>Strings and paths\<close>

text \<open>\<open>s.endswith(suffix)\<close>.\<close>

definition endswith :: "string \<Rightarrow> string \<Rightarrow> bool" where
  "endswith s sfx = (length sfx \<le> length s \<and> drop (length s - length sfx) s = sfx)"

text \<open>\<open>s.startswith(prefix)\<close>.\<close>

definition startswith :: "string \<Rightarrow> string \<Rightarrow> bool" where
  "startswith s pfx = (take (length pfx) s = pfx)"

text \<open>
  \<open>os.path.join(a, b)\<close> of \<open>posixpath\<close>, for two arguments:
  \<^verbatim>\<open>
    if b.startswith(sep) or not path: path = b
    elif path.endswith(sep):          path += b
    else:                             path += sep + b
  \<close>
\<close>

definition os_path_join :: "string \<Rightarrow> string \<Rightarrow> string" where
  "os_path_join a b =
     (if startswith b ''/'' \<or> a = [] then b
      else if endswith a ''/'' then a @ b
      else a @ ''/'' @ b)"

subsection \<open>The file system as the program sees it\<close>

text \<open>
  What \<open>os.scandir\<close> finds below the root: a \<open>File\<close> is any entry for which
  \<open>is_dir()\<close> is false (a regular file, a link to one, a broken link); \<open>Dir\<close> carries
  its entries in the order \<open>scandir\<close> reports them; \<open>DirSymlink\<close> is a symbolic link to a
  directory and \<open>DirUnreadable\<close> a directory whose listing raises \<open>OSError\<close>: both
  count as directories, neither is descended into.
\<close>

datatype node = File | Dir "(string \<times> node) list" | DirSymlink | DirUnreadable

fun is_dir :: "node \<Rightarrow> bool" where
  "is_dir File = False"
| "is_dir (Dir es) = True"
| "is_dir DirSymlink = True"
| "is_dir DirUnreadable = True"

text \<open>
  What opening a path for reading as UTF-8 text gives: \<open>Text c\<close> when the file opens and
  its bytes decode to \<open>c\<close>, \<open>Failure m\<close> when \<open>open\<close> or \<open>read\<close> raises an \<open>Exception\<close>
  \<open>e\<close> with \<open>str(e) = m\<close> (missing file, permission, invalid UTF-8).
\<close>

datatype stored = Text string | Failure string

text \<open>
  The environment of one run: \<open>lookup\<close> is what a path names when the walk starts
  (\<open>None\<close>: nothing; a link at the root is resolved, as \<open>os.walk\<close> lists the directory
  a root link points to), \<open>stored\<close> what a path holds at the moment the program reads
  it, and \<open>can_open_w\<close> whether \<open>open(path, "w")\<close> succeeds.
\<close>

record world =
  lookup :: "string \<Rightarrow> node option"
  stored :: "string \<Rightarrow> stored"
  can_open_w :: "string \<Rightarrow> bool"

text \<open>
  \<open>os.walk(top)\<close> with its defaults \<open>topdown=True, onerror=None, followlinks=False\<close>:
  a directory yields \<open>(top, dirs, nondirs)\<close> and then the walks of its sub-directories
  \<open>os.path.join(top, name)\<close> in the order of \<open>dirs\<close>; a link to a directory is listed
  in \<open>dirs\<close> and skipped; a path that cannot be listed (absent, not a directory,
  unreadable) yields nothing, the error being dropped.
\<close>

fun os_walk :: "string \<Rightarrow> node \<Rightarrow> (string \<times> string list \<times> string list) list"
and walk_subdirs :: "string \<Rightarrow> (string \<times> node) list \<Rightarrow> (string \<times> string list \<times> string list) list"
where
  "os_walk folder (Dir es) =
     (folder, map fst (filter (\<lambda>e. is_dir (snd e)) es),
              map fst (filter (\<lambda>e. \<not> is_dir (snd e)) es))
     # walk_subdirs folder es"
| "os_walk folder File = []"
| "os_walk folder DirSymlink = []"
| "os_walk folder DirUnreadable = []"
| "walk_subdirs folder [] = []"
| "walk_subdirs folder (e # es) =
     (if is_dir (snd e) then os_walk (os_path_join folder (fst e)) (snd e) else [])
     @ walk_subdirs folder es"

definition os_walk_root :: "world \<Rightarrow> string \<Rightarrow> (string \<times> string list \<times> string list) list" where
  "os_walk_root w root_dir =
     (case lookup w root_dir of None \<Rightarrow> [] | Some n \<Rightarrow> os_walk root_dir n)"

text \<open>
  Universal newlines: a stream opened with \<open>open(path, "r", encoding="utf-8")\<close> has
  \<open>newline=None\<close>, so \<open>read()\<close> returns the decoded text with every \<open>\r\n\<close> and every
  other \<open>\r\<close> replaced by \<open>\n\<close>.
\<close>

fun universal_newlines :: "string \<Rightarrow> string" where
  "universal_newlines [] = []"
| "universal_newlines [c] = (if c = CHR 0x0D then [CHR 0x0A] else [c])"
| "universal_newlines (c # d # cs) =
     (if c = CHR 0x0D \<and> d = CHR 0x0A then CHR 0x0A # universal_newlines cs
      else if c = CHR 0x0D then CHR 0x0A # universal_newlines (d # cs)
      else c # universal_newlines (d # cs))"

text \<open>\<open>with open(path, "r", encoding="utf-8") as f: f.read()\<close>: the text, or the message of the exception.\<close>

fun read_text :: "stored \<Rightarrow> string + string" where
  "read_text (Text c) = Inr (universal_newlines c)"
| "read_text (Failure m) = Inl m"

subsection \<open>collect\_source\_files\<close>

definition exts :: "string set" where
  "exts = {''.ts'', ''.tsx'', ''.js'', ''.jsx'', ''.css'', ''.md'', ''.json''}"

text \<open>\<open>any(file.endswith(ext) for ext in exts)\<close>.\<close>

definition has_ext :: "string \<Rightarrow> bool" where
  "has_ext file = (\<exists>ext \<in> exts. endswith file ext)"

text \<open>The inner loop \<open>for file in files\<close>, appending to \<open>collected_paths\<close>.\<close>

fun scan_files :: "string \<Rightarrow> string list \<Rightarrow> string list \<Rightarrow> string list" where
  "scan_files folder [] collected = collected"
| "scan_files folder (file # files) collected =
     scan_files folder files
       (if has_ext file then collected @ [os_path_join folder file] else collected)"

text \<open>The outer loop \<open>for folder, _, files in os.walk(root_dir)\<close>.\<close>

fun scan_walk :: "(string \<times> string list \<times> string list) list \<Rightarrow> string list \<Rightarrow> string list" where
  "scan_walk [] collected = collected"
| "scan_walk ((folder, dirs, files) # rest) collected =
     scan_walk rest (scan_files folder files collected)"

text \<open>The variable \<open>collected_paths\<close> after \<open>collected_paths.sort()\<close>.\<close>

definition collected_paths :: "world \<Rightarrow> string \<Rightarrow> string list" where
  "collected_paths w root_dir = sort (scan_walk (os_walk_root w root_dir) [])"

text \<open>The marker \<open>f"\n\n===== FILE: {path} =====\n\n"\<close> and the placeholder \<open>f"[ERROR READING FILE: {e}]"\<close>.\<close>

definition marker :: "string \<Rightarrow> string" where
  "marker path = ''\<newline>\<newline>===== FILE: '' @ path @ '' =====\<newline>\<newline>''"

definition placeholder :: "string \<Rightarrow> string" where
  "placeholder e = ''[ERROR READING FILE: '' @ e @ '']''"

text \<open>
  The loop \<open>for path in collected_paths\<close>; the last argument is the text written to
  \<open>out\<close> so far. The \<open>try\<close> writes what \<open>read\<close> returns; \<open>except Exception as e\<close>
  writes the placeholder.
\<close>

fun write_blocks :: "world \<Rightarrow> string list \<Rightarrow> string \<Rightarrow> string" where
  "write_blocks w [] out = out"
| "write_blocks w (path # paths) out =
     write_blocks w paths
       (case read_text (stored w path) of
          Inr contents \<Rightarrow> (out @ marker path) @ contents
        | Inl e \<Rightarrow> (out @ marker path) @ placeholder e)"

text \<open>
  The only exception that leaves the function in this model: \<open>open(output_file, "w")\<close>
  raising \<open>OSError\<close>, which nothing catches.
\<close>

datatype py_error = OSError string

text \<open>
  What a completed call has done: its return value, the paths it opened for writing
  (each open truncates), and the text of the output document when it is closed.
\<close>

record outcome =
  returned :: string
  opened_w :: "string list"
  document :: string

definition collect_source_files :: "world \<Rightarrow> string \<Rightarrow> string \<Rightarrow> py_error + outcome" where
  "collect_source_files w root_dir output_file =
     (let paths = collected_paths w root_dir
      in if can_open_w w output_file
         then Inr \<lparr>returned = output_file, opened_w = [output_file],
                   document = write_blocks w paths []\<rparr>
         else Inl (OSError output_file))"

subsection \<open>The module body\<close>






subsection \<open>Well-formed trees and reorderings\<close>

text \<open>
  A directory's entries have distinct names, and a name is not empty and has no \<open>/\<close>.
\<close>

definition valid_name :: "string \<Rightarrow> bool" where
  "valid_name n = (n \<noteq> [] \<and> CHR ''/'' \<notin> set n)"

fun wf_node :: "node \<Rightarrow> bool"
and wf_entries :: "(string \<times> node) list \<Rightarrow> bool" where
  "wf_node (Dir es) = (distinct (map fst es) \<and> wf_entries es)"
| "wf_node File = True"
| "wf_node DirSymlink = True"
| "wf_node DirUnreadable = True"
| "wf_entries [] = True"
| "wf_entries (e # es) = (valid_name (fst e) \<and> wf_node (snd e) \<and> wf_entries es)"

definition wf_root :: "world \<Rightarrow> string \<Rightarrow> bool" where
  "wf_root w root_dir = (case lookup w root_dir of None \<Rightarrow> True | Some n \<Rightarrow> wf_node n)"

text \<open>
  One tree is a reordering of another when it lists the same entries, in any order, in
  every directory: the closure of permuting the entries of one directory.
\<close>

inductive reordered :: "node \<Rightarrow> node \<Rightarrow> bool" where
  same: "reordered n n"
| permuted: "mset es = mset es' \<Longrightarrow> reordered (Dir es) (Dir es')"
| inside: "reordered e e' \<Longrightarrow> reordered (Dir (xs @ (name, e) # ys)) (Dir (xs @ (name, e') # ys))"
| chain: "reordered a b \<Longrightarrow> reordered b c \<Longrightarrow> reordered a c"

text \<open>
  Two environments whose trees below \<open>root_dir\<close> are reorderings of each other (or
  which both have nothing there).
\<close>

definition reordered_root :: "world \<Rightarrow> world \<Rightarrow> string \<Rightarrow> bool" where
  "reordered_root w w' root_dir = rel_option reordered (lookup w root_dir) (lookup w' root_dir)"

subsection \<open>File blocks\<close>

text \<open>
  The block of one path: its marker, then what the \<open>try\<close> statement writes for it.
\<close>

definition payload :: "world \<Rightarrow> string \<Rightarrow> string" where
  "payload w path =
     (case read_text (stored w path) of Inr contents \<Rightarrow> contents | Inl e \<Rightarrow> placeholder e)"

definition block :: "world \<Rightarrow> string \<Rightarrow> string" where
  "block w path = marker path @ payload w path"

text \<open>The paths the traversal appends, in the order it appends them.\<close>

definition walk_paths :: "(string \<times> string list \<times> string list) list \<Rightarrow> string list" where
  "walk_paths walk =
     concat (map (\<lambda>(folder, dirs, files). map (os_path_join folder) (filter has_ext files)) walk)"

subsection \<open>Auxiliary notions\<close>

text \<open>
  What \<open>os.path.join\<close> puts in front of a relative name, and the part of a path after
  its last \<open>/\<close>.
\<close>

definition dir_prefix :: "string \<Rightarrow> string" where
  "dir_prefix a = (if a = [] \<or> endswith a ''/'' then a else a @ ''/'')"

definition basename :: "string \<Rightarrow> string" where
  "basename p = rev (takeWhile (\<lambda>c. c \<noteq> CHR ''/'') (rev p))"

text \<open>
  The collected paths of a tree relative to the folder it is walked from, and those of
  the sub-directories in a list of entries.
\<close>

fun rel_paths :: "node \<Rightarrow> string list"
and rel_sub :: "(string \<times> node) list \<Rightarrow> string list" where
  "rel_paths (Dir es) = filter has_ext (map fst (filter (\<lambda>e. \<not> is_dir (snd e)) es)) @ rel_sub es"
| "rel_paths File = []"
| "rel_paths DirSymlink = []"
| "rel_paths DirUnreadable = []"
| "rel_sub [] = []"
| "rel_sub (e # es) = (if is_dir (snd e) then map (\<lambda>r. fst e @ ''/'' @ r) (rel_paths (snd e)) else []) @ rel_sub es"

text \<open>The paths collected below one entry of a directory, as a multiset.\<close>

definition sub_paths :: "string \<Rightarrow> string \<times> node \<Rightarrow> string multiset" where
  "sub_paths folder e =
     (if is_dir (snd e) then mset (walk_paths (os_walk (os_path_join folder (fst e)) (snd e))) else {#})"

subsection \<open>Sample inputs\<close>

text \<open>
  A source tree with two readable files, a file in a sub-directory that cannot be read,
  files that do not qualify and a link to a directory; and the same tree as another
  listing order would report it.
\<close>

definition demo_tree :: node where
  "demo_tree = Dir [(''b.md'', File), (''lib'', Dir [(''x.js'', File), (''y.txt'', File)]),
                    (''c.png'', File), (''D.TS'', File), (''a.ts'', File), (''link'', DirSymlink)]"

definition demo_shuffled :: node where
  "demo_shuffled = Dir [(''a.ts'', File), (''link'', DirSymlink), (''D.TS'', File), (''c.png'', File),
                    (''lib'', Dir [(''y.txt'', File), (''x.js'', File)]), (''b.md'', File)]"

definition demo_stored :: "string \<Rightarrow> stored" where
  "demo_stored p = (if p = ''./src/a.ts'' then Text ''x''
                    else if p = ''./src/b.md'' then Text ''y''
                    else Failure ''denied'')"

definition demo_world :: world where
  "demo_world = \<lparr>lookup = (\<lambda>p. if p = ''./src'' then Some demo_tree else None),
                  stored = demo_stored, can_open_w = (\<lambda>p. p \<noteq> [])\<rparr>"

definition shuffled_world :: world where
  "shuffled_world = \<lparr>lookup = (\<lambda>p. if p = ''./src'' then Some demo_shuffled else None),
                  stored = demo_stored, can_open_w = (\<lambda>p. p \<noteq> [])\<rparr>"



text \<open>A tree with one file, whose text has a Windows line ending.\<close>

definition crlf_world :: world where
  "crlf_world = \<lparr>lookup = (\<lambda>p. if p = ''./src'' then Some (Dir [(''a.ts'', File)]) else None),
                  stored = (\<lambda>p. Text (''x'' @ [CHR 0x0D, CHR 0x0A] @ ''y'')),
                  can_open_w = (\<lambda>p. p \<noteq> [])\<rparr>"


text \<open>What the call on the sample tree is expected to do.\<close>

definition demo_outcome :: outcome where
  "demo_outcome = \<lparr>returned = ''out.txt'', opened_w = [''out.txt''],
     document = ''\<newline>\<newline>===== FILE: ./src/a.ts =====\<newline>\<newline>x\<newline>\<newline>===== FILE: ./src/b.md =====\<newline>\<newline>y\<newline>\<newline>===== FILE: ./src/lib/x.js =====\<newline>\<newline>[ERROR READING FILE: denied]''\<rparr>"




section \<open>Properties\<close>

subsection \<open>The loops as list functions\<close>

lemma endswith_suffix: "endswith s sfx \<longleftrightarrow> suffix sfx s"
  unfolding endswith_def
  by (metis suffix_def suffix_drop suffix_length_le append_eq_conv_conj append_take_drop_id diff_add_inverse2 length_append length_drop)

lemma has_ext_suffix:
  "has_ext f \<longleftrightarrow> (\<exists>ext \<in> {''.ts'', ''.tsx'', ''.js'', ''.jsx'', ''.css'', ''.md'', ''.json''}. suffix ext f)"
  by (simp add: has_ext_def exts_def endswith_suffix)

lemma scan_files_eq: "scan_files folder files acc = acc @ map (os_path_join folder) (filter has_ext files)"
  by (induction files arbitrary: acc) auto

lemma scan_walk_eq: "scan_walk walk acc = acc @ walk_paths walk"
  by (induction walk acc rule: scan_walk.induct) (auto simp: walk_paths_def scan_files_eq)

lemma collected_paths_eq: "collected_paths w root_dir = sort (walk_paths (os_walk_root w root_dir))"
  by (simp add: collected_paths_def scan_walk_eq)

lemma walk_paths_Cons: "walk_paths ((folder, dirs, files) # rest) = map (os_path_join folder) (filter has_ext files) @ walk_paths rest"
  by (simp add: walk_paths_def)

lemma walk_paths_append: "walk_paths (xs @ ys) = walk_paths xs @ walk_paths ys"
  by (simp add: walk_paths_def)

lemma walk_paths_Nil: "walk_paths [] = []"
  by (simp add: walk_paths_def)

lemma walk_paths_mem:
  "p \<in> set (walk_paths walk) \<longleftrightarrow> (\<exists>folder dirs files file. (folder, dirs, files) \<in> set walk \<and> file \<in> set files \<and> has_ext file \<and> p = os_path_join folder file)"
  unfolding walk_paths_def by (simp, blast)

lemma marker_unfold: "marker path = ''\<newline>\<newline>===== FILE: '' @ path @ '' =====\<newline>\<newline>''"
  by (simp add: marker_def)



lemma block_Text: "stored w path = Text c \<Longrightarrow> block w path = marker path @ universal_newlines c"
  by (simp add: block_def payload_def)

lemma write_blocks_eq: "write_blocks w paths out = out @ concat (map (block w) paths)"
  by (induction paths arbitrary: out) (auto simp: block_def payload_def split: sum.splits)

lemma blocks_start_with_marker:
  "paths \<noteq> [] \<Longrightarrow> prefix ''\<newline>\<newline>===== FILE: '' (concat (map (block w) paths))"
  by (cases paths) (simp_all add: block_def marker_def)

lemma result_Inr:
  "collect_source_files w root_dir output_file = Inr r \<longleftrightarrow>
     can_open_w w output_file \<and>
     r = \<lparr>returned = output_file, opened_w = [output_file],
          document = concat (map (block w) (collected_paths w root_dir))\<rparr>"
  by (auto simp: collect_source_files_def write_blocks_eq)


lemma universal_newlines_id: "CHR 0x0D \<notin> set c \<Longrightarrow> universal_newlines c = c"
  by (induction c rule: universal_newlines.induct) auto

subsection \<open>Joined paths\<close>

lemma valid_name_not_abs: "valid_name n \<Longrightarrow> \<not> startswith n ''/''"
  by (cases n) (auto simp: valid_name_def startswith_def)

lemma join_prefix: "valid_name n \<Longrightarrow> os_path_join a n = dir_prefix a @ n"
  by (simp add: os_path_join_def dir_prefix_def valid_name_not_abs)

lemma endswith_slash: "endswith a ''/'' \<longleftrightarrow> a \<noteq> [] \<and> last a = CHR ''/''"
  by (cases a rule: rev_cases) (auto simp: endswith_def)

lemma dir_prefix_join: "valid_name n \<Longrightarrow> dir_prefix (os_path_join a n) = dir_prefix a @ n @ ''/''"
proof -
  assume v: "valid_name n"
  then have "last (dir_prefix a @ n) = last n" "last n \<in> set n" by (simp_all add: valid_name_def)
  with v have "last (dir_prefix a @ n) \<noteq> CHR ''/''" unfolding valid_name_def by metis
  moreover from v have "n \<noteq> []" by (simp add: valid_name_def)
  ultimately show ?thesis using v by (simp add: join_prefix dir_prefix_def[of "dir_prefix a @ n"] endswith_slash)
qed

lemma basename_append: "CHR ''/'' \<notin> set n \<Longrightarrow> x = [] \<or> last x = CHR ''/'' \<Longrightarrow> basename (x @ n) = n"
proof -
  assume n: "CHR ''/'' \<notin> set n" and x: "x = [] \<or> last x = CHR ''/''"
  have all: "takeWhile (\<lambda>c. c \<noteq> CHR ''/'') (rev n) = rev n"
    using n by (auto simp: takeWhile_eq_all_conv)
  show ?thesis
  proof (cases x rule: rev_cases)
    case Nil
    then show ?thesis by (simp add: basename_def all)
  next
    case (snoc ys y)
    with x have "y = CHR ''/''" by simp
    with snoc n show ?thesis by (simp add: basename_def takeWhile_tail all)
  qed
qed

lemma basename_join: "valid_name n \<Longrightarrow> basename (os_path_join a n) = n"
  by (simp add: join_prefix) (rule basename_append, auto simp: valid_name_def dir_prefix_def endswith_slash)

lemma takeWhile_slash: "CHR ''/'' \<notin> set a \<Longrightarrow> takeWhile (\<lambda>c. c \<noteq> CHR ''/'') (a @ ''/'' @ r) = a"
  by (induction a) auto

lemma slash_split:
  assumes "CHR ''/'' \<notin> set a" "CHR ''/'' \<notin> set b" "a @ ''/'' @ r = b @ ''/'' @ r'"
  shows "a = b \<and> r = r'"
proof -
  have "takeWhile (\<lambda>c. c \<noteq> CHR ''/'') (a @ ''/'' @ r) = a"
    using assms(1) by (rule takeWhile_slash)
  moreover have "takeWhile (\<lambda>c. c \<noteq> CHR ''/'') (b @ ''/'' @ r') = b"
    using assms(2) by (rule takeWhile_slash)
  ultimately have "a = b" using assms(3) by simp
  with assms(3) show ?thesis by simp
qed

subsection \<open>The paths of a well-formed tree\<close>

lemma wf_entries_valid: "wf_entries es \<Longrightarrow> e \<in> set es \<Longrightarrow> valid_name (fst e) \<and> wf_node (snd e)"
  by (induction es) auto

lemma walk_rel:
  "wf_node n \<Longrightarrow> walk_paths (os_walk folder n) = map ((@) (dir_prefix folder)) (rel_paths n)"
  "wf_entries es \<Longrightarrow> walk_paths (walk_subdirs folder es) = map ((@) (dir_prefix folder)) (rel_sub es)"
proof (induction folder n and folder es rule: os_walk_walk_subdirs.induct)
  case (1 folder es)
  have "map (os_path_join folder) (filter has_ext (map fst (filter (\<lambda>e. \<not> is_dir (snd e)) es)))
      = map ((@) (dir_prefix folder)) (filter has_ext (map fst (filter (\<lambda>e. \<not> is_dir (snd e)) es)))"
    using 1(2) by (auto simp: join_prefix dest: wf_entries_valid)
  with 1 show ?case by (simp add: walk_paths_Cons)
next
  case (6 folder e es)
  then show ?case by (auto simp: walk_paths_append walk_paths_Nil dir_prefix_join)
qed (simp_all add: walk_paths_Nil)

lemma rel_sub_form: "p \<in> set (rel_sub es) \<Longrightarrow> \<exists>e \<in> set es. \<exists>r. p = fst e @ ''/'' @ r"
  by (induction es) (auto split: if_splits)

lemma distinct_rel:
  "wf_node n \<Longrightarrow> distinct (rel_paths n)"
  "wf_entries es \<Longrightarrow> distinct (map fst es) \<Longrightarrow> distinct (rel_sub es)"
proof (induction n and es rule: rel_paths_rel_sub.induct)
  case (1 es)
  let ?fs = "filter has_ext (map fst (filter (\<lambda>e. \<not> is_dir (snd e)) es))"
  have d: "distinct (map fst es)" and wf: "wf_entries es" using 1(2) by simp_all
  have "distinct ?fs" using d by (simp add: distinct_map_filter)
  moreover have "distinct (rel_sub es)" using 1(1) wf d by simp
  moreover have "set ?fs \<inter> set (rel_sub es) = {}"
  proof (rule ccontr)
    assume "set ?fs \<inter> set (rel_sub es) \<noteq> {}"
    then obtain p where p1: "p \<in> set ?fs" and p2: "p \<in> set (rel_sub es)" by auto
    from p1 obtain e where "e \<in> set es" "p = fst e" by auto
    with wf have "CHR ''/'' \<notin> set p" using wf_entries_valid valid_name_def by blast
    moreover from rel_sub_form[OF p2] have "CHR ''/'' \<in> set p" by auto
    ultimately show False by simp
  qed
  ultimately show ?case by simp
next
  case (6 e es)
  have v: "valid_name (fst e)" and wfe: "wf_node (snd e)" and wf: "wf_entries es"
    and ne: "fst e \<notin> fst ` set es" and d: "distinct (map fst es)"
    using 6(3,4) by simp_all
  have tl: "distinct (rel_sub es)" using 6(2) wf d by simp
  show ?case
  proof (cases "is_dir (snd e)")
    case False
    with tl show ?thesis by simp
  next
    case True
    have "distinct (rel_paths (snd e))" using 6(1) True wfe by simp
    then have hd: "distinct (map (\<lambda>r. fst e @ ''/'' @ r) (rel_paths (snd e)))"
      by (simp add: distinct_map inj_on_def)
    have "set (map (\<lambda>r. fst e @ ''/'' @ r) (rel_paths (snd e))) \<inter> set (rel_sub es) = {}"
    proof (rule ccontr)
      assume "\<not> ?thesis"
      then obtain r where p2: "fst e @ ''/'' @ r \<in> set (rel_sub es)" by auto
      from rel_sub_form[OF p2] obtain e' r' where e': "e' \<in> set es"
        and eq: "fst e @ ''/'' @ r = fst e' @ ''/'' @ r'" by blast
      from wf e' have "valid_name (fst e')" using wf_entries_valid by blast
      with v eq have "fst e = fst e'" using slash_split unfolding valid_name_def by blast
      with ne e' show False by auto
    qed
    with hd tl True show ?thesis by simp
  qed
qed simp_all

lemma distinct_walk_paths: "wf_node n \<Longrightarrow> distinct (walk_paths (os_walk folder n))"
  by (simp add: walk_rel distinct_rel distinct_map inj_on_def)

lemma distinct_root: "wf_root w root_dir \<Longrightarrow> distinct (walk_paths (os_walk_root w root_dir))"
  by (auto simp: wf_root_def os_walk_root_def walk_paths_Nil distinct_walk_paths split: option.splits)

lemma walk_files_valid:
  "wf_node n \<Longrightarrow> (fo, ds, fs) \<in> set (os_walk folder n) \<Longrightarrow> f \<in> set fs \<Longrightarrow> valid_name f"
  "wf_entries es \<Longrightarrow> (fo, ds, fs) \<in> set (walk_subdirs folder es) \<Longrightarrow> f \<in> set fs \<Longrightarrow> valid_name f"
proof (induction folder n and folder es rule: os_walk_walk_subdirs.induct)
  case (1 folder es)
  then show ?case by (auto dest: wf_entries_valid)
next
  case (6 folder e es)
  then show ?case by (auto split: if_splits)
qed simp_all

lemma root_files_valid:
  "wf_root w root_dir \<Longrightarrow> (fo, ds, fs) \<in> set (os_walk_root w root_dir) \<Longrightarrow> f \<in> set fs \<Longrightarrow> valid_name f"
  by (auto simp: wf_root_def os_walk_root_def split: option.splits dest: walk_files_valid(1))

lemma strict_sorted: "distinct xs \<Longrightarrow> sorted_wrt (<) (sort (xs :: string list))"
  by (simp add: strict_sorted_iff)

subsection \<open>Reordered directories\<close>

lemma reordered_is_dir: "reordered n n' \<Longrightarrow> is_dir n' = is_dir n"
  by (induction rule: reordered.induct) auto

lemma walk_subdirs_append: "walk_subdirs folder (xs @ ys) = walk_subdirs folder xs @ walk_subdirs folder ys"
  by (induction xs) auto

lemma mset_walk_subdirs:
  "mset (walk_paths (walk_subdirs folder es)) = sum_mset (image_mset (sub_paths folder) (mset es))"
  by (induction es) (auto simp: walk_paths_Nil walk_paths_append sub_paths_def)

lemma mset_walk_Dir:
  "mset (walk_paths (os_walk folder (Dir es))) =
     image_mset (os_path_join folder) (filter_mset has_ext (image_mset fst (filter_mset (\<lambda>e. \<not> is_dir (snd e)) (mset es))))
     + sum_mset (image_mset (sub_paths folder) (mset es))"
  by (simp add: walk_paths_Cons mset_walk_subdirs)

lemma reordered_mset:
  "reordered n n' \<Longrightarrow> mset (walk_paths (os_walk folder n')) = mset (walk_paths (os_walk folder n))"
proof (induction arbitrary: folder rule: reordered.induct)
  case (permuted es es')
  then show ?case by (simp only: mset_walk_Dir)
next
  case (inside e e' xs name ys)
  have "is_dir e' = is_dir e" using inside(1) by (rule reordered_is_dir)
  then show ?case using inside(2)
    by (simp add: walk_paths_Cons walk_paths_append walk_subdirs_append)
qed simp_all

lemma sort_cong_mset: "mset xs = mset ys \<Longrightarrow> sort xs = sort (ys :: string list)"
  by (rule properties_for_sort) simp_all

lemma reordered_root_mset:
  assumes "reordered_root w w' root_dir"
  shows "mset (walk_paths (os_walk_root w' root_dir)) = mset (walk_paths (os_walk_root w root_dir))"
proof (cases "lookup w root_dir")
  case None
  with assms show ?thesis
    by (cases "lookup w' root_dir") (simp_all add: reordered_root_def os_walk_root_def)
next
  case (Some n)
  with assms obtain n' where n': "lookup w' root_dir = Some n'" and r: "reordered n n'"
    by (cases "lookup w' root_dir") (simp_all add: reordered_root_def)
  show ?thesis using Some n' reordered_mset[OF r, of root_dir] by (simp add: os_walk_root_def)
qed

lemma same_paths_collected:
  assumes "mset (walk_paths (os_walk_root w' root_dir)) = mset (walk_paths (os_walk_root w root_dir))"
  shows "collected_paths w' root_dir = collected_paths w root_dir"
proof -
  from assms have "sort (walk_paths (os_walk_root w' root_dir)) = sort (walk_paths (os_walk_root w root_dir))"
    by (rule sort_cong_mset)
  then show ?thesis by (simp add: collected_paths_eq)
qed

lemma reordered_collected:
  "reordered_root w w' root_dir \<Longrightarrow> collected_paths w' root_dir = collected_paths w root_dir"
  by (rule same_paths_collected) (rule reordered_root_mset)


subsection \<open>The sample inputs, evaluated\<close>

lemma demo_walk:
  "os_walk_root demo_world ''./src'' =
     [(''./src'', [''lib'', ''link''], [''b.md'', ''c.png'', ''D.TS'', ''a.ts'']),
      (''./src/lib'', [], [''x.js'', ''y.txt''])]"
  by code_simp

lemma demo_paths: "collected_paths demo_world ''./src'' = [''./src/a.ts'', ''./src/b.md'', ''./src/lib/x.js'']"
  by code_simp

lemma demo_wf: "wf_root demo_world ''./src''"
  by code_simp

lemma demo_run: "collect_source_files demo_world ''./src'' ''out.txt'' = Inr demo_outcome"
  by code_simp


lemma demo_reordered_tree: "reordered demo_tree demo_shuffled"
proof -
  have inner: "reordered (Dir [(''x.js'', File), (''y.txt'', File)]) (Dir [(''y.txt'', File), (''x.js'', File)])"
    by (rule reordered.permuted) simp
  have "reordered demo_tree
     (Dir ([(''b.md'', File)] @ (''lib'', Dir [(''y.txt'', File), (''x.js'', File)]) #
           [(''c.png'', File), (''D.TS'', File), (''a.ts'', File), (''link'', DirSymlink)]))"
    unfolding demo_tree_def using reordered.inside [OF inner, of "[(''b.md'', File)]" "''lib''"] by simp
  moreover have "reordered
     (Dir ([(''b.md'', File)] @ (''lib'', Dir [(''y.txt'', File), (''x.js'', File)]) #
           [(''c.png'', File), (''D.TS'', File), (''a.ts'', File), (''link'', DirSymlink)])) demo_shuffled"
    unfolding demo_shuffled_def by (rule reordered.permuted) simp
  ultimately show ?thesis by (rule reordered.chain)
qed

lemma demo_reordered: "reordered_root demo_world shuffled_world ''./src''"
  using demo_reordered_tree by (simp add: reordered_root_def demo_world_def shuffled_world_def)




lemma shuffled_walk:
  "os_walk_root shuffled_world ''./src'' =
     [(''./src'', [''link'', ''lib''], [''a.ts'', ''D.TS'', ''c.png'', ''b.md'']),
      (''./src/lib'', [], [''y.txt'', ''x.js''])]"
  by code_simp


lemma crlf_paths: "collected_paths crlf_world ''./src'' = [''./src/a.ts'']"
  by code_simp

lemma crlf_run:
  "collect_source_files crlf_world ''./src'' ''out.txt'' =
     Inr \<lparr>returned = ''out.txt'', opened_w = [''out.txt''],
          document = ''\<newline>\<newline>===== FILE: ./src/a.ts =====\<newline>\<newline>x\<newline>y''\<rparr>"
  by code_simp




section \<open>The claims\<close>



text \<open>
  Claim C2. In a tree whose names are file-system names (not empty, no \<open>/\<close>), the full
  path of a file met by the traversal is among the collected paths exactly when one of
  \<open>.ts .tsx .js .jsx .css .md .json\<close> is a suffix of its name, compared character by
  character; and the document of a completed call is made of the blocks of the collected
  paths and of nothing else, so a file has a block exactly when its name matches.
\<close>

theorem collected_iff_extension_matches:
  assumes wf: "wf_root w root_dir"
    and t: "(folder, dirs, files) \<in> set (os_walk_root w root_dir)"
    and f: "file \<in> set files"
  shows "(os_path_join folder file \<in> set (collected_paths w root_dir)) =
           (\<exists>ext \<in> {''.ts'', ''.tsx'', ''.js'', ''.jsx'', ''.css'', ''.md'', ''.json''}. suffix ext file)
         \<and> (\<forall>output_file r. collect_source_files w root_dir output_file = Inr r \<longrightarrow>
               document r = concat (map (block w) (collected_paths w root_dir)))"
proof -
  have "os_path_join folder file \<in> set (collected_paths w root_dir) \<longleftrightarrow> has_ext file"
  proof
    assume "has_ext file"
    with t f show "os_path_join folder file \<in> set (collected_paths w root_dir)"
      by (auto simp: collected_paths_eq walk_paths_mem)
  next
    assume "os_path_join folder file \<in> set (collected_paths w root_dir)"
    then obtain fo ds fs g
      where g: "(fo, ds, fs) \<in> set (os_walk_root w root_dir)" "g \<in> set fs" "has_ext g"
        and eq: "os_path_join folder file = os_path_join fo g"
      by (auto simp: collected_paths_eq walk_paths_mem)
    have "valid_name file" using wf t f by (rule root_files_valid)
    moreover have "valid_name g" using wf g(1,2) by (rule root_files_valid)
    ultimately have "basename (os_path_join folder file) = file" "basename (os_path_join fo g) = g"
      by (simp_all add: basename_join)
    with eq have "file = g" by simp
    with g show "has_ext file" by simp
  qed
  then show ?thesis by (simp add: has_ext_suffix result_Inr)
qed

text \<open>
  C2 on the sample tree: \<open>a.ts\<close> is collected, \<open>D.TS\<close> is not (the comparison is
  case-sensitive).
\<close>

theorem collected_iff_extension_matches_witness:
  "wf_root demo_world ''./src'' \<and>
   (''./src'', [''lib'', ''link''], [''b.md'', ''c.png'', ''D.TS'', ''a.ts''])
      \<in> set (os_walk_root demo_world ''./src'') \<and>
   ''a.ts'' \<in> set [''b.md'', ''c.png'', ''D.TS'', ''a.ts''] \<and>
   ''D.TS'' \<in> set [''b.md'', ''c.png'', ''D.TS'', ''a.ts''] \<and>
   os_path_join ''./src'' ''a.ts'' \<in> set (collected_paths demo_world ''./src'') \<and>
   os_path_join ''./src'' ''D.TS'' \<notin> set (collected_paths demo_world ''./src'')"
proof -
  have t: "(''./src'', [''lib'', ''link''], [''b.md'', ''c.png'', ''D.TS'', ''a.ts''])
      \<in> set (os_walk_root demo_world ''./src'')"
    by (simp add: demo_walk)
  have a: "''a.ts'' \<in> set [''b.md'', ''c.png'', ''D.TS'', ''a.ts'']"
    and d: "''D.TS'' \<in> set [''b.md'', ''c.png'', ''D.TS'', ''a.ts'']" by simp_all
  have "os_path_join ''./src'' ''a.ts'' \<in> set (collected_paths demo_world ''./src'')"
    using collected_iff_extension_matches [OF demo_wf t a] by (simp add: suffix_def)
  moreover have "os_path_join ''./src'' ''D.TS'' \<notin> set (collected_paths demo_world ''./src'')"
    using collected_iff_extension_matches [OF demo_wf t d] by (simp add: suffix_def)
  ultimately show ?thesis using demo_wf t a d by blast
qed

text \<open>
  Claim C3. In a tree where the names in a directory are distinct file-system names, the
  paths whose blocks make up the document, in the order of their blocks, are strictly
  ascending in the lexicographic order of strings, and they are the same list whatever
  the order in which the directories list their entries.
\<close>

theorem blocks_in_strict_path_order:
  assumes "wf_root w root_dir"
  shows "sorted_wrt (<) (collected_paths w root_dir)
         \<and> (\<forall>w'. reordered_root w w' root_dir \<longrightarrow>
               collected_paths w' root_dir = collected_paths w root_dir)
         \<and> (\<forall>output_file r. collect_source_files w root_dir output_file = Inr r \<longrightarrow>
               document r = concat (map (block w) (collected_paths w root_dir)))"
proof -
  have "sorted_wrt (<) (collected_paths w root_dir)"
    unfolding collected_paths_eq using distinct_root [OF assms] by (rule strict_sorted)
  then show ?thesis by (simp add: reordered_collected result_Inr)
qed

text \<open>
  C3 on the sample tree and a shuffled copy of it: the walks differ, the sorted paths do
  not.
\<close>

theorem blocks_in_strict_path_order_witness:
  "wf_root demo_world ''./src'' \<and> reordered_root demo_world shuffled_world ''./src'' \<and>
   os_walk_root shuffled_world ''./src'' \<noteq> os_walk_root demo_world ''./src'' \<and>
   sorted_wrt (<) (collected_paths demo_world ''./src'') \<and>
   collected_paths shuffled_world ''./src'' = [''./src/a.ts'', ''./src/b.md'', ''./src/lib/x.js'']"
proof -
  note main = blocks_in_strict_path_order [OF demo_wf]
  from main demo_reordered have "collected_paths shuffled_world ''./src'' = collected_paths demo_world ''./src''"
    by blast
  moreover have "os_walk_root shuffled_world ''./src'' \<noteq> os_walk_root demo_world ''./src''"
    by (simp add: demo_walk shuffled_walk)
  ultimately show ?thesis using main demo_wf demo_reordered demo_paths by simp
qed



text \<open>
  Claim C5 as stated fails: a file whose text is \<open>x\r\ny\<close> is read successfully, and
  the document holds \<open>x\ny\<close> after its marker, not the text of the file.
\<close>

theorem content_with_carriage_return_counterexample:
  "collected_paths crlf_world ''./src'' = [''./src/a.ts''] \<and>
   stored crlf_world ''./src/a.ts'' = Text (''x'' @ [CHR 0x0D, CHR 0x0A] @ ''y'') \<and>
   collect_source_files crlf_world ''./src'' ''out.txt'' =
     Inr \<lparr>returned = ''out.txt'', opened_w = [''out.txt''],
          document = ''\<newline>\<newline>===== FILE: ./src/a.ts =====\<newline>\<newline>'' @ ''x\<newline>y''\<rparr> \<and>
   ''x\<newline>y'' \<noteq> ''x'' @ [CHR 0x0D, CHR 0x0A] @ ''y''"
  using crlf_paths crlf_run by (simp add: crlf_world_def)

text \<open>
  Claim C5, amended. For a collected path whose file holds the text \<open>c\<close> and reads
  successfully, the document holds, between the path's marker and the next block (or the
  end of the document), \<open>c\<close> with every \<open>\r\n\<close> and every other \<open>\r\<close> replaced by
  \<open>\n\<close>; this is \<open>c\<close> itself when \<open>c\<close> has no carriage return. What follows, if
  anything, starts with the opening of the next marker.
\<close>

theorem content_between_marker_and_next_block:
  assumes "collect_source_files w root_dir output_file = Inr r"
    and "collected_paths w root_dir = before @ path # after"
    and "stored w path = Text c"
  shows "document r =
           concat (map (block w) before) @
           ''\<newline>\<newline>===== FILE: '' @ path @ '' =====\<newline>\<newline>'' @
           universal_newlines c @
           concat (map (block w) after)
         \<and> (CHR 0x0D \<notin> set c \<longrightarrow> universal_newlines c = c)
         \<and> (after \<noteq> [] \<longrightarrow> prefix ''\<newline>\<newline>===== FILE: '' (concat (map (block w) after)))"
proof -
  have "concat (map (block w) (collected_paths w root_dir)) =
      concat (map (block w) before) @ ''\<newline>\<newline>===== FILE: '' @ path @ '' =====\<newline>\<newline>'' @
        universal_newlines c @ concat (map (block w) after)"
    using assms(2,3) by (simp add: block_Text marker_unfold)
  with assms(1) show ?thesis
    by (simp add: result_Inr universal_newlines_id blocks_start_with_marker)
qed

text \<open>
  C5 (amended) on the sample tree, for its first file.
\<close>

theorem content_between_marker_and_next_block_witness:
  "collect_source_files demo_world ''./src'' ''out.txt'' = Inr demo_outcome \<and>
   collected_paths demo_world ''./src'' = [] @ ''./src/a.ts'' # [''./src/b.md'', ''./src/lib/x.js''] \<and>
   stored demo_world ''./src/a.ts'' = Text ''x'' \<and>
   CHR 0x0D \<notin> set ''x'' \<and>
   document demo_outcome =
     ''\<newline>\<newline>===== FILE: ./src/a.ts =====\<newline>\<newline>'' @ ''x'' @
     concat (map (block demo_world) [''./src/b.md'', ''./src/lib/x.js'']) \<and>
   prefix ''\<newline>\<newline>===== FILE: '' (concat (map (block demo_world) [''./src/b.md'', ''./src/lib/x.js'']))"
proof -
  have p: "collected_paths demo_world ''./src'' = [] @ ''./src/a.ts'' # [''./src/b.md'', ''./src/lib/x.js'']"
    using demo_paths by simp
  have s: "stored demo_world ''./src/a.ts'' = Text ''x''"
    by (simp add: demo_world_def demo_stored_def)
  from content_between_marker_and_next_block [OF demo_run p s] p s demo_run
  show ?thesis by simp
qed











text \<open>
  Claim C10. In a tree where the names in a directory are distinct file-system names, the
  collected paths are pairwise distinct, and there is exactly one of them for each file of
  the walk that has an extension.
\<close>

theorem collected_paths_distinct:
  assumes "wf_root w root_dir"
  shows "distinct (collected_paths w root_dir)
         \<and> length (collected_paths w root_dir) =
             length (concat (map (\<lambda>(folder, dirs, files). filter has_ext files) (os_walk_root w root_dir)))"
proof -
  have "length (walk_paths walk) = length (concat (map (\<lambda>(folder, dirs, files). filter has_ext files) walk))" for walk
    by (induction walk) (auto simp: walk_paths_def)
  with distinct_root [OF assms] show ?thesis by (simp add: collected_paths_eq)
qed

text \<open>
  C10 on the sample tree.
\<close>

theorem collected_paths_distinct_witness:
  "wf_root demo_world ''./src'' \<and> distinct (collected_paths demo_world ''./src'') \<and>
   length (collected_paths demo_world ''./src'') = 3"
  using collected_paths_distinct [OF demo_wf] demo_wf demo_paths by simp

end
